theory Spec2Isabelle
  imports Main "HOL-Library.Sublist" "HOL-Library.Multiset"
begin

section \<open>Python values\<close>

text \<open>
  The values that \<^verbatim>\<open>r.json()\<close> hands to the application: \<^verbatim>\<open>None\<close>, booleans,
  integers, strings, lists and dictionaries with string keys. A dictionary is an
  association list that holds each key once; \<^verbatim>\<open>dict.get\<close> is the lookup
  \<open>map_of\<close>. Numbers with a fractional part are left out of the model.
\<close>

datatype pyval =
    PNone
  | PBool bool
  | PInt int
  | PStr string
  | PList "pyval list"
  | PDict "(string \<times> pyval) list"

text \<open>The exceptions that the modelled code can meet. All four are subclasses of
  \<^verbatim>\<open>Exception\<close>.\<close>

datatype pyerr = TypeError | AttributeError | RequestException | JSONDecodeError

text \<open>Truth value testing (\<^verbatim>\<open>not x\<close>, \<^verbatim>\<open>x or y\<close>, \<^verbatim>\<open>if x\<close>).\<close>

fun truthy :: "pyval \<Rightarrow> bool" where
  "truthy PNone = False"
| "truthy (PBool b) = b"
| "truthy (PInt n) = (n \<noteq> 0)"
| "truthy (PStr s) = (s \<noteq> [])"
| "truthy (PList xs) = (xs \<noteq> [])"
| "truthy (PDict kvs) = (kvs \<noteq> [])"

text \<open>\<^verbatim>\<open>a.get(k, d)\<close>: only a dictionary has the method; on every other value the
  attribute lookup raises \<^verbatim>\<open>AttributeError\<close>.\<close>

fun py_get :: "pyval \<Rightarrow> string \<Rightarrow> pyval \<Rightarrow> pyerr + pyval" where
  "py_get (PDict kvs) k d = Inr (case map_of kvs k of None \<Rightarrow> d | Some v \<Rightarrow> v)"
| "py_get _ k d = Inl AttributeError"

text \<open>Iteration (\<^verbatim>\<open>for a in x\<close>): a list yields its elements, a string its
  characters as one-character strings, a dictionary its keys; \<^verbatim>\<open>None\<close>, booleans and
  integers are not iterable.\<close>

fun py_iter :: "pyval \<Rightarrow> pyerr + pyval list" where
  "py_iter (PList xs) = Inr xs"
| "py_iter (PStr s) = Inr (map (\<lambda>c. PStr [c]) s)"
| "py_iter (PDict kvs) = Inr (map (\<lambda>kv. PStr (fst kv)) kvs)"
| "py_iter _ = Inl TypeError"

text \<open>Membership in a \<^verbatim>\<open>set\<close> goes through \<^verbatim>\<open>hash\<close> and \<^verbatim>\<open>==\<close>. Lists and
  dictionaries are unhashable (\<^verbatim>\<open>TypeError\<close>); \<^verbatim>\<open>True\<close> and \<^verbatim>\<open>1\<close> (and \<^verbatim>\<open>False\<close>
  and \<^verbatim>\<open>0\<close>) are equal with equal hashes, so they are one key.\<close>

datatype hkey = KNone | KInt int | KStr string

fun py_hash :: "pyval \<Rightarrow> pyerr + hkey" where
  "py_hash PNone = Inr KNone"
| "py_hash (PBool b) = Inr (KInt (if b then 1 else 0))"
| "py_hash (PInt n) = Inr (KInt n)"
| "py_hash (PStr s) = Inr (KStr s)"
| "py_hash (PList xs) = Inl TypeError"
| "py_hash (PDict kvs) = Inl TypeError"

section \<open>The article sanitizer\<close>

text \<open>
  \<^verbatim>\<open>
  def _safe_articles(items):
      cleaned = []
      seen = set()
      for a in items or []:
          url = a.get("url")
          title = a.get("title")
          if not url or not title:
              continue
          if url in seen:
              continue
          seen.add(url)
          cleaned.append(a)
      return cleaned
  \<close>
  The loop body, with the two locals \<open>seen\<close> and \<open>cleaned\<close> passed along.
\<close>

fun safe_articles_loop :: "pyval list \<Rightarrow> hkey set \<Rightarrow> pyval list \<Rightarrow> pyerr + pyval list" where
  "safe_articles_loop [] seen cleaned = Inr cleaned"
| "safe_articles_loop (a # rest) seen cleaned =
     (case py_get a ''url'' PNone of
        Inl e \<Rightarrow> Inl e
      | Inr url \<Rightarrow>
         (case py_get a ''title'' PNone of
            Inl e \<Rightarrow> Inl e
          | Inr title \<Rightarrow>
             if \<not> truthy url \<or> \<not> truthy title then safe_articles_loop rest seen cleaned
             else
               (case py_hash url of
                  Inl e \<Rightarrow> Inl e
                | Inr k \<Rightarrow>
                   if k \<in> seen then safe_articles_loop rest seen cleaned
                   else safe_articles_loop rest (insert k seen) (cleaned @ [a]))))"

text \<open>\<^verbatim>\<open>items or []\<close> replaces every falsy argument by the empty list.\<close>

definition safe_articles :: "pyval \<Rightarrow> pyerr + pyval list" where
  "safe_articles items =
     (case py_iter (if truthy items then items else PList []) of
        Inl e \<Rightarrow> Inl e
      | Inr xs \<Rightarrow> safe_articles_loop xs {} [])"

subsection \<open>Vocabulary for the sanitizer's contract\<close>

text \<open>The value of a field of a record, \<^verbatim>\<open>None\<close> when the key is missing.\<close>

fun field :: "string \<Rightarrow> pyval \<Rightarrow> pyval" where
  "field k (PDict kvs) = (case map_of kvs k of None \<Rightarrow> PNone | Some v \<Rightarrow> v)"
| "field k _ = PNone"

fun is_dict :: "pyval \<Rightarrow> bool" where
  "is_dict (PDict kvs) = True"
| "is_dict _ = False"

fun hashable :: "pyval \<Rightarrow> bool" where
  "hashable (PList xs) = False"
| "hashable (PDict kvs) = False"
| "hashable _ = True"

text \<open>The key under which a URL is remembered in \<open>seen\<close>.\<close>

definition url_key :: "pyval \<Rightarrow> hkey" where
  "url_key a = (case py_hash (field ''url'' a) of Inl e \<Rightarrow> KNone | Inr k \<Rightarrow> k)"

text \<open>A record with a non-empty URL and a non-empty title.\<close>

definition has_url_and_title :: "pyval \<Rightarrow> bool" where
  "has_url_and_title a = (truthy (field ''url'' a) \<and> truthy (field ''title'' a))"

text \<open>An article-like record: a dictionary whose URL, when there is one, is a value
  that can be a set member (a string, a number, \<^verbatim>\<open>None\<close>). Any field may be missing
  or null.\<close>

definition article_like :: "pyval \<Rightarrow> bool" where
  "article_like a = (is_dict a \<and> hashable (field ''url'' a))"

text \<open>The records the loop keeps, written without the accumulator: a record passes
  when it has URL and title and its URL was not met before.\<close>

fun kept :: "hkey set \<Rightarrow> pyval list \<Rightarrow> pyval list" where
  "kept seen [] = []"
| "kept seen (a # rest) =
     (if has_url_and_title a \<and> url_key a \<notin> seen
      then a # kept (insert (url_key a) seen) rest
      else kept seen rest)"

text \<open>The loop raises exactly on an element that is no dictionary, or whose URL has
  to be hashed and cannot be.\<close>

definition passes :: "pyval \<Rightarrow> bool" where
  "passes a = (is_dict a \<and> (has_url_and_title a \<longrightarrow> hashable (field ''url'' a)))"

subsection \<open>Example records\<close>

definition ex_a1 :: pyval where
  "ex_a1 = PDict [(''url'', PStr ''https://news.example/1''), (''title'', PStr ''One'')]"

definition ex_a2 :: pyval where
  "ex_a2 = PDict [(''url'', PStr ''https://news.example/1''), (''title'', PStr ''Two'')]"

definition ex_a3 :: pyval where
  "ex_a3 = PDict [(''url'', PStr ''https://news.example/3''), (''title'', PNone)]"

definition ex_a4 :: pyval where
  "ex_a4 = PDict [(''title'', PStr ''Four''), (''url'', PStr ''https://news.example/4''),
                  (''source'', PDict [(''id'', PNone), (''name'', PStr ''Example'')])]"

definition ex_b1 :: pyval where
  "ex_b1 = PDict [(''url'', PStr ''https://tech.example/b1''), (''title'', PStr ''Chips'')]"

definition ex_b2 :: pyval where
  "ex_b2 = PDict [(''url'', PStr ''https://sport.example/b2''), (''title'', PStr ''Cup'')]"

definition ex_b3 :: pyval where
  "ex_b3 = PDict [(''url'', PStr ''https://sport.example/b3''), (''title'', PStr ''Race'')]"

definition ex_b4 :: pyval where
  "ex_b4 = PDict [(''url'', PStr ''https://sport.example/b4''), (''title'', PStr ''Match''),
                  (''description'', PNone)]"

section \<open>The feed merger\<close>

subsection \<open>The random source\<close>

text \<open>
  The generator of \<^verbatim>\<open>random\<close> is a stream of raw draws, position \<open>0\<close> being the
  next one. \<^verbatim>\<open>randbelow(n)\<close> takes the next draw into the range \<open>0 \<le> j < n\<close>;
  \<^verbatim>\<open>randint(a, b)\<close> is \<^verbatim>\<open>a + randbelow(b - a + 1)\<close>. The program calls
  \<^verbatim>\<open>randint(1, 3)\<close> only, and \<^verbatim>\<open>shuffle\<close> calls \<^verbatim>\<open>randbelow\<close> with \<open>n \<ge> 2\<close>.
\<close>

type_synonym rng = "nat \<Rightarrow> nat"

definition randbelow :: "nat \<Rightarrow> rng \<Rightarrow> nat \<times> rng" where
  "randbelow n rnd = (rnd 0 mod n, \<lambda>i. rnd (Suc i))"

definition randint :: "int \<Rightarrow> int \<Rightarrow> rng \<Rightarrow> int \<times> rng" where
  "randint a b rnd = (case randbelow (nat (b - a + 1)) rnd of (r, rnd') \<Rightarrow> (a + int r, rnd'))"

text \<open>
  \<^verbatim>\<open>
  def shuffle(self, x):
      for i in reversed(range(1, len(x))):
          j = randbelow(i + 1)
          x[i], x[j] = x[j], x[i]
  \<close>
\<close>

fun shuffle_loop :: "nat \<Rightarrow> 'a list \<Rightarrow> rng \<Rightarrow> 'a list \<times> rng" where
  "shuffle_loop 0 x rnd = (x, rnd)"
| "shuffle_loop (Suc i) x rnd =
     (case randbelow (Suc i + 1) rnd of
        (j, rnd') \<Rightarrow> shuffle_loop i (x[Suc i := x ! j, j := x ! Suc i]) rnd')"

definition shuffle :: "'a list \<Rightarrow> rng \<Rightarrow> 'a list \<times> rng" where
  "shuffle x rnd = shuffle_loop (length x - 1) x rnd"

subsection \<open>Merging\<close>

text \<open>
  \<^verbatim>\<open>
  def merge_shuffle_limit(list_of_lists, limit=18):
      merged = []
      for lst in list_of_lists:
          merged.extend(lst)
      random.shuffle(merged)
      return merged[:limit]
  \<close>
  The slice \<^verbatim>\<open>merged[:limit]\<close> with a negative \<open>limit\<close> counts from the end.
\<close>

fun extend_all :: "'a list \<Rightarrow> 'a list list \<Rightarrow> 'a list" where
  "extend_all merged [] = merged"
| "extend_all merged (lst # rest) = extend_all (merged @ lst) rest"

definition slice_to :: "'a list \<Rightarrow> int \<Rightarrow> 'a list" where
  "slice_to xs limit =
     (if 0 \<le> limit then take (nat limit) xs else take (nat (int (length xs) + limit)) xs)"

definition merge_shuffle_limit :: "'a list list \<Rightarrow> int \<Rightarrow> rng \<Rightarrow> 'a list \<times> rng" where
  "merge_shuffle_limit list_of_lists limit rnd =
     (case shuffle (extend_all [] list_of_lists) rnd of
        (merged, rnd') \<Rightarrow> (slice_to merged limit, rnd'))"

text \<open>A random source for the examples: the draws \<open>1, 2, 3, \<dots>\<close>\<close>

definition rnd_count :: rng where
  "rnd_count = (\<lambda>i. i + 1)"

section \<open>The article source adapter\<close>

subsection \<open>Configuration and the provider\<close>

text \<open>
  The process environment is a map from variable names to strings;
  \<^verbatim>\<open>os.environ.get(k)\<close> is the lookup and \<^verbatim>\<open>os.environ.get(k, d)\<close> the lookup with a
  default.
\<close>

type_synonym environ = "string \<rightharpoonup> string"

definition API_KEY :: "environ \<Rightarrow> string option" where
  "API_KEY env = env ''NEWS_API_KEY''"

definition ADMIN_EMAIL :: "environ \<Rightarrow> string" where
  "ADMIN_EMAIL env = (case env ''ADMIN_EMAIL'' of None \<Rightarrow> ''admin@example.com'' | Some e \<Rightarrow> e)"

definition TOP_NEWS_URL :: string where
  "TOP_NEWS_URL = ''https://newsapi.org/v2/top-headlines''"

definition SEARCH_URL :: string where
  "SEARCH_URL = ''https://newsapi.org/v2/everything''"

text \<open>An outbound call \<^verbatim>\<open>requests.get(url, params=params, timeout=15)\<close> followed by
  \<^verbatim>\<open>r.json()\<close> has three outcomes: the call raises (no connection, timeout), the
  body is not JSON and \<^verbatim>\<open>r.json()\<close> raises, or a JSON value arrives. The provider is
  a function from the request to the outcome.\<close>

record http_request =
  req_url :: string
  req_params :: "(string \<times> pyval) list"

datatype outcome = Get_raises | Json_raises | Json pyval

type_synonym provider = "http_request \<Rightarrow> outcome"

text \<open>\<^verbatim>\<open>except Exception\<close> catches every exception of the model.\<close>

fun is_Exception :: "pyerr \<Rightarrow> bool" where
  "is_Exception TypeError = True"
| "is_Exception AttributeError = True"
| "is_Exception RequestException = True"
| "is_Exception JSONDecodeError = True"

text \<open>
  The statements inside \<^verbatim>\<open>try\<close>, the same in both functions:
  \<^verbatim>\<open>
      r = requests.get(URL, params=params, timeout=15)
      data = r.json()
      if data.get("status") == "ok":
          return _safe_articles(data.get("articles", []))
  \<close>
  \<open>Inr (Some xs)\<close> is the \<^verbatim>\<open>return\<close>, \<open>Inr None\<close> leaving the block without it.
\<close>

definition try_block :: "outcome \<Rightarrow> pyerr + pyval list option" where
  "try_block oc =
     (case oc of
        Get_raises \<Rightarrow> Inl RequestException
      | Json_raises \<Rightarrow> Inl JSONDecodeError
      | Json data \<Rightarrow>
         (case py_get data ''status'' PNone of
            Inl e \<Rightarrow> Inl e
          | Inr status \<Rightarrow>
             if status = PStr ''ok'' then
               (case py_get data ''articles'' (PList []) of
                  Inl e \<Rightarrow> Inl e
                | Inr articles \<Rightarrow>
                   (case safe_articles articles of
                      Inl e \<Rightarrow> Inl e
                    | Inr cleaned \<Rightarrow> Inr (Some cleaned)))
             else Inr None))"

text \<open>The handler prints the exception and control reaches the final
  \<^verbatim>\<open>return []\<close>; an exception the handler does not catch leaves the function.\<close>

definition try_except_return :: "outcome \<Rightarrow> pyerr + pyval list" where
  "try_except_return oc =
     (case try_block oc of
        Inl e \<Rightarrow> if is_Exception e then Inr [] else Inl e
      | Inr (Some articles) \<Rightarrow> Inr articles
      | Inr None \<Rightarrow> Inr [])"

definition top_headlines_request :: "string \<Rightarrow> string \<Rightarrow> int \<Rightarrow> int \<Rightarrow> http_request" where
  "top_headlines_request key country page_size page =
     \<lparr>req_url = TOP_NEWS_URL,
      req_params = [(''apiKey'', PStr key), (''country'', PStr country),
                    (''pageSize'', PInt page_size), (''page'', PInt page)]\<rparr>"

definition topic_search_request :: "string \<Rightarrow> string \<Rightarrow> int \<Rightarrow> int \<Rightarrow> http_request" where
  "topic_search_request key topic page_size page =
     \<lparr>req_url = SEARCH_URL,
      req_params = [(''apiKey'', PStr key), (''q'', PStr topic), (''language'', PStr ''en''),
                    (''sortBy'', PStr ''publishedAt''), (''pageSize'', PInt page_size),
                    (''page'', PInt page)]\<rparr>"

text \<open>
  \<^verbatim>\<open>
  def fetch_top_headlines(country="us", page_size=12, page=1):
      if not API_KEY:
          return []
      params = {"apiKey": API_KEY, "country": country, "pageSize": page_size, "page": page}
      try: ...
      except Exception as e:
          print("Top headlines error:", e)
      return []
  \<close>
  \<^verbatim>\<open>not API_KEY\<close> holds for a variable that is unset and for one set to the empty
  string.
\<close>

definition fetch_top_headlines ::
  "environ \<Rightarrow> provider \<Rightarrow> string \<Rightarrow> int \<Rightarrow> int \<Rightarrow> pyerr + pyval list" where
  "fetch_top_headlines env prov country page_size page =
     (case API_KEY env of
        None \<Rightarrow> Inr []
      | Some key \<Rightarrow>
         if key = [] then Inr []
         else try_except_return (prov (top_headlines_request key country page_size page)))"

definition fetch_news_for_topic ::
  "environ \<Rightarrow> provider \<Rightarrow> string \<Rightarrow> int \<Rightarrow> int \<Rightarrow> pyerr + pyval list" where
  "fetch_news_for_topic env prov topic page_size page =
     (case API_KEY env of
        None \<Rightarrow> Inr []
      | Some key \<Rightarrow>
         if key = [] then Inr []
         else try_except_return (prov (topic_search_request key topic page_size page)))"

subsection \<open>Vocabulary for the adapter's contract\<close>

text \<open>The key is absent: unset, or empty.\<close>

definition key_absent :: "environ \<Rightarrow> bool" where
  "key_absent env = (case API_KEY env of None \<Rightarrow> True | Some key \<Rightarrow> key = [])"

text \<open>The response reports success: it is an object whose \<open>status\<close> is the string
  \<open>ok\<close>.\<close>

definition status_ok :: "pyval \<Rightarrow> bool" where
  "status_ok data = (py_get data ''status'' PNone = Inr (PStr ''ok''))"

text \<open>The \<open>articles\<close> value of a response, the empty list when the key is missing.\<close>

definition articles_of :: "pyval \<Rightarrow> pyval" where
  "articles_of data = (case py_get data ''articles'' (PList []) of Inl e \<Rightarrow> PList [] | Inr v \<Rightarrow> v)"

text \<open>The sanitized list, or the empty list when the sanitizer raises.\<close>

definition sanitized_or_empty :: "pyval \<Rightarrow> pyval list" where
  "sanitized_or_empty v = (case safe_articles v of Inl e \<Rightarrow> [] | Inr xs \<Rightarrow> xs)"

text \<open>The outcomes of the failure taxonomy: transport error, malformed body, or a
  response that does not report success.\<close>

fun failure :: "outcome \<Rightarrow> bool" where
  "failure Get_raises = True"
| "failure Json_raises = True"
| "failure (Json data) = (\<not> status_ok data)"

definition ex_env :: environ where
  "ex_env = [''NEWS_API_KEY'' \<mapsto> ''k123'']"

definition ex_response :: pyval where
  "ex_response = PDict [(''status'', PStr ''ok''), (''totalResults'', PInt 4),
                        (''articles'', PList [ex_a1, ex_a2, ex_a3, ex_a4])]"

definition ex_error_response :: pyval where
  "ex_error_response = PDict [(''status'', PStr ''error''), (''code'', PStr ''rateLimited'')]"

definition ex_provider :: provider where
  "ex_provider = (\<lambda>req. if req_url req = TOP_NEWS_URL then Json ex_response
                         else if map_of (req_params req) ''q'' = Some (PStr ''sports'')
                         then Json ex_error_response
                         else if map_of (req_params req) ''q'' = Some (PStr ''technology'')
                         then Json ex_response else Get_raises)"

section \<open>Users, sessions and the forms\<close>

subsection \<open>Library functions taken as parameters\<close>

text \<open>
  \<^verbatim>\<open>str.strip\<close>, \<^verbatim>\<open>str.lower\<close> and
  \<^verbatim>\<open>hashlib.sha256(pw.encode()).hexdigest()\<close> belong to Python, not to this
  program. The model takes them as parameters, so that what is proved holds for the
  real functions. \<open>ex_lib\<close> below is an instance for running examples: ASCII
  white space, ASCII letters, and a stand-in for the digest.
\<close>

record pylib =
  str_strip :: "string \<Rightarrow> string"
  str_lower :: "string \<Rightarrow> string"
  sha256_hexdigest :: "string \<Rightarrow> string"

definition hash_password :: "pylib \<Rightarrow> string \<Rightarrow> string" where
  "hash_password L pw = sha256_hexdigest L pw"

subsection \<open>The store\<close>

text \<open>
  The rows of the table \<^verbatim>\<open>User\<close>, in the order of insertion. The column
  \<^verbatim>\<open>id\<close> is \<open>uid\<close> here. The table \<^verbatim>\<open>Activity\<close> plays no part in what follows.
\<close>

record user =
  uid :: int
  name :: string
  email :: string
  password_hash :: string
  interests :: string

type_synonym db = "user list"

text \<open>\<^verbatim>\<open>User.query.filter_by(...).first()\<close> and \<^verbatim>\<open>db.session.get(User, i)\<close>.\<close>

definition filter_by_email_first :: "db \<Rightarrow> string \<Rightarrow> user option" where
  "filter_by_email_first rows em = find (\<lambda>u. email u = em) rows"

definition filter_by_email_password_first :: "db \<Rightarrow> string \<Rightarrow> string \<Rightarrow> user option" where
  "filter_by_email_password_first rows em pw =
     find (\<lambda>u. email u = em \<and> password_hash u = pw) rows"

definition session_get_user :: "db \<Rightarrow> int \<Rightarrow> user option" where
  "session_get_user rows i = find (\<lambda>u. uid u = i) rows"

text \<open>\<^verbatim>\<open>db.session.add(new_user); db.session.commit()\<close>: the row gets the next
  integer key. The column \<^verbatim>\<open>email\<close> is declared unique, and the commit of a second
  row with the same address raises.\<close>

datatype dberr = IntegrityError

definition next_id :: "db \<Rightarrow> int" where
  "next_id rows = fold max (map uid rows) 0 + 1"

definition add_commit :: "db \<Rightarrow> string \<Rightarrow> string \<Rightarrow> string \<Rightarrow> string \<Rightarrow> dberr + db" where
  "add_commit rows n em pw ints =
     (if \<exists>u\<in>set rows. email u = em then Inl IntegrityError
      else Inr (rows @ [\<lparr>uid = next_id rows, name = n, email = em, password_hash = pw,
                        interests = ints\<rparr>]))"

subsection \<open>Requests, responses, the session\<close>

datatype http_method = GET | POST

text \<open>\<^verbatim>\<open>request.method\<close> is \<open>req_method\<close> here, \<^verbatim>\<open>request.form\<close> is \<open>form\<close>.\<close>

record request =
  req_method :: http_method
  form :: "string \<rightharpoonup> string"

text \<open>A view returns a rendered template, a redirect to an endpoint or a plain
  text; \<^verbatim>\<open>abort(403)\<close>, a missing form key (400) and an exception that no one
  catches (500) end the request with that status.\<close>

datatype response = Rendered string | Redirect string | Text string | Abort nat

text \<open>The two keys of the session that the program uses.\<close>

record session =
  session_user_id :: "int option"
  session_email :: "string option"

definition anonymous :: session where
  "anonymous = \<lparr>session_user_id = None, session_email = None\<rparr>"

subsection \<open>Registration\<close>

text \<open>
  \<^verbatim>\<open>
  def register():
      if request.method == "POST":
          name = request.form["name"].strip()
          email = request.form["email"].strip().lower()
          password = hash_password(request.form["password"])
          interests = request.form.get("interests", "").strip()
          if User.query.filter_by(email=email).first():
              return "Email already registered. Try logging in."
          new_user = User(name=name, email=email, password_hash=password, interests=interests)
          db.session.add(new_user)
          db.session.commit()
          return redirect(url_for("login"))
      return render_template("register.html")
  \<close>
\<close>

definition register :: "pylib \<Rightarrow> db \<Rightarrow> request \<Rightarrow> db \<times> response" where
  "register L rows req =
     (if req_method req = POST then
        (case form req ''name'' of
           None \<Rightarrow> (rows, Abort 400)
         | Some n \<Rightarrow>
            (case form req ''email'' of
               None \<Rightarrow> (rows, Abort 400)
             | Some e \<Rightarrow>
                (case form req ''password'' of
                   None \<Rightarrow> (rows, Abort 400)
                 | Some p \<Rightarrow>
                    (let name' = str_strip L n;
                         email' = str_lower L (str_strip L e);
                         password = hash_password L p;
                         interests' = str_strip L (case form req ''interests'' of
                                                     None \<Rightarrow> [] | Some i \<Rightarrow> i)
                     in if filter_by_email_first rows email' \<noteq> None
                        then (rows, Text ''Email already registered. Try logging in.'')
                        else (case add_commit rows name' email' password interests' of
                                Inl err \<Rightarrow> (rows, Abort 500)
                              | Inr rows' \<Rightarrow> (rows', Redirect ''login''))))))
      else (rows, Rendered ''register.html''))"

subsection \<open>Login and logout\<close>

text \<open>
  \<^verbatim>\<open>
  def login():
      if request.method == "POST":
          email = request.form["email"].strip().lower()
          password = hash_password(request.form["password"])
          user = User.query.filter_by(email=email, password_hash=password).first()
          if user:
              session["user_id"] = user.id
              session["email"] = user.email
              return redirect(url_for("home"))
          return "Invalid credentials"
      return render_template("login.html")
  \<close>
\<close>

definition login :: "pylib \<Rightarrow> db \<Rightarrow> session \<Rightarrow> request \<Rightarrow> session \<times> response" where
  "login L rows sess req =
     (if req_method req = POST then
        (case form req ''email'' of
           None \<Rightarrow> (sess, Abort 400)
         | Some e \<Rightarrow>
            (case form req ''password'' of
               None \<Rightarrow> (sess, Abort 400)
             | Some p \<Rightarrow>
                (let email' = str_lower L (str_strip L e);
                     password = hash_password L p
                 in case filter_by_email_password_first rows email' password of
                      Some u \<Rightarrow>
                        (sess\<lparr>session_user_id := Some (uid u), session_email := Some (email u)\<rparr>,
                         Redirect ''home'')
                    | None \<Rightarrow> (sess, Text ''Invalid credentials''))))
      else (sess, Rendered ''login.html''))"

text \<open>\<^verbatim>\<open>session.pop("user_id", None); session.pop("email", None)\<close>\<close>

definition logout :: "session \<Rightarrow> session \<times> response" where
  "logout sess = (sess\<lparr>session_user_id := None, session_email := None\<rparr>, Redirect ''home'')"

subsection \<open>The admin gate\<close>

text \<open>
  \<^verbatim>\<open>
  def admin_required():
      if session.get("email") != ADMIN_EMAIL:
          abort(403)
  \<close>
  \<open>Inl\<close> carries the response of the abort, \<open>Inr ()\<close> is the normal return.
\<close>

definition admin_required :: "environ \<Rightarrow> session \<Rightarrow> response + unit" where
  "admin_required env sess =
     (if session_email sess \<noteq> Some (ADMIN_EMAIL env) then Inl (Abort 403) else Inr ())"

definition show_users :: "environ \<Rightarrow> db \<Rightarrow> session \<Rightarrow> response" where
  "show_users env rows sess =
     (case admin_required env sess of
        Inl r \<Rightarrow> r
      | Inr _ \<Rightarrow> Rendered ''admin_users.html'')"

definition user_count :: "environ \<Rightarrow> db \<Rightarrow> session \<Rightarrow> response" where
  "user_count env rows sess =
     (case admin_required env sess of
        Inl r \<Rightarrow> r
      | Inr _ \<Rightarrow> Rendered ''admin_usercount.html'')"

subsection \<open>An instance of the library for examples\<close>

definition ascii_space :: "char \<Rightarrow> bool" where
  "ascii_space c = (c \<in> set [CHR '' '', CHR 0x09, CHR 0x0A, CHR 0x0B, CHR 0x0C, CHR 0x0D])"

definition ascii_strip :: "string \<Rightarrow> string" where
  "ascii_strip s = rev (dropWhile ascii_space (rev (dropWhile ascii_space s)))"

definition ascii_lower :: "string \<Rightarrow> string" where
  "ascii_lower s =
     map (\<lambda>c. case map_of (zip ''ABCDEFGHIJKLMNOPQRSTUVWXYZ'' ''abcdefghijklmnopqrstuvwxyz'') c of
                 None \<Rightarrow> c | Some d \<Rightarrow> d) s"

definition ex_lib :: pylib where
  "ex_lib = \<lparr>str_strip = ascii_strip, str_lower = ascii_lower,
             sha256_hexdigest = (\<lambda>s. ''digest:'' @ s)\<rparr>"

definition ex_alice :: user where
  "ex_alice = \<lparr>uid = 1, name = ''Alice'', email = ''alice@example.com'',
               password_hash = ''digest:wonderland'', interests = ''technology, ai''\<rparr>"

definition ex_bob :: user where
  "ex_bob = \<lparr>uid = 2, name = ''Bob'', email = ''admin@example.com'',
             password_hash = ''digest:builder'', interests = '',, ''\<rparr>"

definition ex_login_form :: "string \<Rightarrow> string \<Rightarrow> request" where
  "ex_login_form e p = \<lparr>req_method = POST, form = [''email'' \<mapsto> e, ''password'' \<mapsto> p]\<rparr>"

definition ex_register_form :: "string \<Rightarrow> string \<Rightarrow> string \<Rightarrow> request" where
  "ex_register_form n e p =
     \<lparr>req_method = POST, form = [''name'' \<mapsto> n, ''email'' \<mapsto> e, ''password'' \<mapsto> p]\<rparr>"

section \<open>The home page\<close>

text \<open>\<^verbatim>\<open>s.split(",")\<close>: the pieces between the commas, at least one piece (so the
  empty case of the inner match never arises).\<close>

fun split_comma :: "string \<Rightarrow> string list" where
  "split_comma [] = [[]]"
| "split_comma (c # cs) =
     (if c = CHR '','' then [] # split_comma cs
      else (case split_comma cs of
              [] \<Rightarrow> [[c]]
            | w # ws \<Rightarrow> (c # w) # ws))"

text \<open>
  \<^verbatim>\<open>
  topic_feeds = []
  for t in used_topics:
      page = random.randint(1, 3)
      topic_feeds.append(fetch_news_for_topic(t, page_size=10, page=page))
  \<close>
\<close>

fun topic_feeds_loop ::
  "environ \<Rightarrow> provider \<Rightarrow> string list \<Rightarrow> rng \<Rightarrow> pyval list list
     \<Rightarrow> pyerr + (pyval list list \<times> rng)" where
  "topic_feeds_loop env prov [] rnd topic_feeds = Inr (topic_feeds, rnd)"
| "topic_feeds_loop env prov (t # ts) rnd topic_feeds =
     (case randint 1 3 rnd of
        (page, rnd') \<Rightarrow>
          (case fetch_news_for_topic env prov t 10 page of
             Inl e \<Rightarrow> Inl e
           | Inr feed \<Rightarrow> topic_feeds_loop env prov ts rnd' (topic_feeds @ [feed])))"

text \<open>What \<^verbatim>\<open>render_template("index.html", ...)\<close> is given.\<close>

record home_page =
  articles :: "pyval list"
  page_user :: "user option"
  personalized :: bool
  topics :: "string list"

text \<open>
  The two branches of
  \<^verbatim>\<open>
  if user and user.interests:
      topics = [t.strip() for t in user.interests.split(",") if t.strip()]
      if not topics:
          topics = ["technology", "science", "sports"]
      used_topics = topics[:5]
      ...
      articles = merge_shuffle_limit(topic_feeds, limit=18)
      personalized = True
  else:
      page = random.randint(1, 3)
      articles = fetch_top_headlines(country="us", page_size=12, page=page)
      personalized = False
  \<close>
  \<open>personalized_feed\<close> is the first branch from \<^verbatim>\<open>used_topics = topics[:5]\<close> on.
\<close>

definition personalized_feed ::
  "environ \<Rightarrow> provider \<Rightarrow> user option \<Rightarrow> string list \<Rightarrow> rng \<Rightarrow> pyerr + (home_page \<times> rng)" where
  "personalized_feed env prov usr tops rnd =
     (let used_topics = take 5 tops
      in case topic_feeds_loop env prov used_topics rnd [] of
           Inl e \<Rightarrow> Inl e
         | Inr (topic_feeds, rnd1) \<Rightarrow>
            (case merge_shuffle_limit topic_feeds 18 rnd1 of
               (arts, rnd2) \<Rightarrow>
                 Inr (\<lparr>articles = arts, page_user = usr, personalized = True,
                       topics = used_topics\<rparr>, rnd2)))"

definition top_headlines_feed ::
  "environ \<Rightarrow> provider \<Rightarrow> user option \<Rightarrow> rng \<Rightarrow> pyerr + (home_page \<times> rng)" where
  "top_headlines_feed env prov usr rnd =
     (case randint 1 3 rnd of
        (page, rnd1) \<Rightarrow>
          (case fetch_top_headlines env prov ''us'' 12 page of
             Inl e \<Rightarrow> Inl e
           | Inr arts \<Rightarrow>
               Inr (\<lparr>articles = arts, page_user = usr, personalized = False, topics = []\<rparr>,
                    rnd1)))"

text \<open>
  \<^verbatim>\<open>
  def home():
      user = None
      if "user_id" in session:
          user = db.session.get(User, session["user_id"])
      if user and user.interests: ...
      else: ...
      return render_template("index.html", articles=articles, user=user,
                             personalized=personalized, topics=used_topics)
  \<close>
\<close>

definition home ::
  "pylib \<Rightarrow> environ \<Rightarrow> provider \<Rightarrow> db \<Rightarrow> session \<Rightarrow> rng \<Rightarrow> pyerr + (home_page \<times> rng)" where
  "home L env prov rows sess rnd =
     (let usr = (case session_user_id sess of
                   None \<Rightarrow> None
                 | Some i \<Rightarrow> session_get_user rows i)
      in case usr of
           None \<Rightarrow> top_headlines_feed env prov usr rnd
         | Some u \<Rightarrow>
            if interests u \<noteq> [] then
              (let tops = filter (\<lambda>t. t \<noteq> []) (map (str_strip L) (split_comma (interests u)))
               in personalized_feed env prov usr
                    (if tops = [] then [''technology'', ''science'', ''sports''] else tops) rnd)
            else top_headlines_feed env prov usr rnd)"

section \<open>Properties of the sanitizer\<close>

lemma py_get_dict: "is_dict a \<Longrightarrow> py_get a k PNone = Inr (field k a)"
  by (cases a) simp_all

lemma py_get_not_dict: "\<not> is_dict a \<Longrightarrow> py_get a k d = Inl AttributeError"
  by (cases a) simp_all

lemma py_hash_hashable: "hashable (field ''url'' a) \<Longrightarrow> py_hash (field ''url'' a) = Inr (url_key a)"
  by (cases "field ''url'' a") (simp_all add: url_key_def)

lemma py_hash_unhashable: "\<not> hashable v \<Longrightarrow> py_hash v = Inl TypeError"
  by (cases v) simp_all

lemma loop_passes:
  "\<forall>a\<in>set xs. passes a \<Longrightarrow> safe_articles_loop xs seen cleaned = Inr (cleaned @ kept seen xs)"
proof (induction xs arbitrary: seen cleaned)
  case Nil
  show ?case by simp
next
  case (Cons a rest)
  from Cons.prems have d: "is_dict a" and r: "\<forall>b\<in>set rest. passes b"
    by (simp_all add: passes_def)
  note ih = Cons.IH [OF r]
  show ?case
  proof (cases "has_url_and_title a")
    case False
    then show ?thesis
      using d ih by (auto simp: py_get_dict has_url_and_title_def)
  next
    case True
    with Cons.prems have h: "hashable (field ''url'' a)"
      by (simp add: passes_def)
    note k = py_hash_hashable [OF h]
    from True have t: "truthy (field ''url'' a)" "truthy (field ''title'' a)"
      by (simp_all add: has_url_and_title_def)
    show ?thesis
      using d t k True ih by (simp add: py_get_dict)
  qed
qed

lemma loop_Inr_passes:
  "safe_articles_loop xs seen cleaned = Inr out \<Longrightarrow> \<forall>a\<in>set xs. passes a"
proof (induction xs arbitrary: seen cleaned)
  case Nil
  show ?case by simp
next
  case (Cons a rest)
  have d: "is_dict a"
  proof (rule ccontr)
    assume "\<not> is_dict a"
    then have "py_get a ''url'' PNone = Inl AttributeError" by (rule py_get_not_dict)
    with Cons.prems show False by simp
  qed
  have p: "passes a"
  proof (cases "has_url_and_title a \<and> \<not> hashable (field ''url'' a)")
    case True
    then have "py_hash (field ''url'' a) = Inl TypeError" by (simp add: py_hash_unhashable)
    with True d Cons.prems show ?thesis
      by (simp add: py_get_dict has_url_and_title_def)
  next
    case False
    with d show ?thesis by (auto simp: passes_def)
  qed
  have "\<forall>b\<in>set rest. passes b"
    using Cons.prems d Cons.IH
    by (auto simp: py_get_dict split: if_splits sum.splits)
  with p show ?case by simp
qed

lemma kept_subseq: "subseq (kept seen xs) xs"
  by (induction xs arbitrary: seen) auto

lemma kept_sound: "a \<in> set (kept seen xs) \<Longrightarrow> has_url_and_title a \<and> url_key a \<notin> seen \<and> a \<in> set xs"
  by (induction xs arbitrary: seen) (auto split: if_splits)

lemma kept_distinct: "distinct (map url_key (kept seen xs))"
proof (induction xs arbitrary: seen)
  case Nil
  show ?case by simp
next
  case (Cons a rest)
  have "url_key a \<notin> url_key ` set (kept (insert (url_key a) seen) rest)"
  proof
    assume "url_key a \<in> url_key ` set (kept (insert (url_key a) seen) rest)"
    then obtain b where b: "b \<in> set (kept (insert (url_key a) seen) rest)"
      and e: "url_key a = url_key b" by blast
    from kept_sound [OF b] e show False by simp
  qed
  with Cons.IH show ?case by simp
qed

lemma kept_first:
  "a \<in> set (kept seen xs) \<Longrightarrow>
   find (\<lambda>b. has_url_and_title b \<and> url_key b = url_key a) xs = Some a"
proof (induction xs arbitrary: seen)
  case Nil
  then show ?case by simp
next
  case (Cons x rest)
  show ?case
  proof (cases "has_url_and_title x \<and> url_key x \<notin> seen")
    case True
    with Cons.prems have "a = x \<or> a \<in> set (kept (insert (url_key x) seen) rest)" by simp
    then show ?thesis
    proof
      assume "a = x"
      with True show ?thesis by simp
    next
      assume m: "a \<in> set (kept (insert (url_key x) seen) rest)"
      from kept_sound [OF m] have "url_key x \<noteq> url_key a" by auto
      then have "find (\<lambda>b. has_url_and_title b \<and> url_key b = url_key a) (x # rest) =
                 find (\<lambda>b. has_url_and_title b \<and> url_key b = url_key a) rest"
        by simp
      with Cons.IH [OF m] show ?thesis by simp
    qed
  next
    case False
    with Cons.prems have m: "a \<in> set (kept seen rest)" by auto
    from kept_sound [OF m] have "url_key a \<notin> seen" by simp
    with False have "\<not> (has_url_and_title x \<and> url_key x = url_key a)" by auto
    then have "find (\<lambda>b. has_url_and_title b \<and> url_key b = url_key a) (x # rest) =
               find (\<lambda>b. has_url_and_title b \<and> url_key b = url_key a) rest"
      by auto
    with Cons.IH [OF m] show ?thesis by simp
  qed
qed

lemma kept_covers:
  "b \<in> set xs \<Longrightarrow> has_url_and_title b \<Longrightarrow> url_key b \<notin> seen \<Longrightarrow>
   url_key b \<in> url_key ` set (kept seen xs)"
proof (induction xs arbitrary: seen)
  case Nil
  then show ?case by simp
next
  case (Cons x rest)
  show ?case
  proof (cases "b = x \<or> url_key b = url_key x \<and> has_url_and_title x")
    case True
    with Cons.prems show ?thesis by auto
  next
    case False
    with Cons.prems have m: "b \<in> set rest" by auto
    show ?thesis
    proof (cases "has_url_and_title x \<and> url_key x \<notin> seen")
      case True
      with False have "url_key b \<notin> insert (url_key x) seen"
        using Cons.prems by auto
      from Cons.IH [OF m Cons.prems(2) this] True show ?thesis by simp
    next
      case False
      with Cons.IH [OF m Cons.prems(2) Cons.prems(3)] show ?thesis by auto
    qed
  qed
qed

lemma kept_clean:
  "\<forall>a\<in>set xs. has_url_and_title a \<and> url_key a \<notin> seen \<Longrightarrow> distinct (map url_key xs) \<Longrightarrow>
   kept seen xs = xs"
proof (induction xs arbitrary: seen)
  case Nil
  show ?case by simp
next
  case (Cons a rest)
  have "\<forall>b\<in>set rest. has_url_and_title b \<and> url_key b \<notin> insert (url_key a) seen"
  proof
    fix b
    assume b: "b \<in> set rest"
    with Cons.prems(2) have "url_key b \<noteq> url_key a" by (simp add: image_iff) metis
    with b Cons.prems(1) show "has_url_and_title b \<and> url_key b \<notin> insert (url_key a) seen"
      by simp
  qed
  moreover from Cons.prems have "distinct (map url_key rest)" by simp
  ultimately have "kept (insert (url_key a) seen) rest = rest" by (rule Cons.IH)
  with Cons.prems show ?case by simp
qed

lemma article_like_passes: "article_like a \<Longrightarrow> passes a"
  by (simp add: article_like_def passes_def)

lemma safe_articles_PList: "safe_articles (PList xs) = safe_articles_loop xs {} []"
  by (cases xs) (simp_all add: safe_articles_def)

lemma safe_articles_Inr:
  assumes "safe_articles items = Inr out"
  shows "\<exists>ys. (\<forall>a\<in>set ys. passes a) \<and> out = kept {} ys"
proof -
  from assms obtain ys where l: "safe_articles_loop ys {} [] = Inr out"
    by (auto simp: safe_articles_def split: sum.splits)
  from loop_Inr_passes [OF l] have p: "\<forall>a\<in>set ys. passes a" .
  from loop_passes [OF p, of "{}" "[]"] l have "out = kept {} ys" by simp
  with p show ?thesis by blast
qed

lemmas ex_defs = ex_a1_def ex_a2_def ex_a3_def ex_a4_def ex_b1_def ex_b2_def ex_b3_def ex_b4_def

subsection \<open>The sanitizer's contract\<close>

text \<open>
  C1. For every input list of article-like records the sanitizer returns a list. The
  list is a subsequence of the input (input order is preserved), every record in it has
  a non-empty URL and a non-empty title, no two of its records have the same URL, and
  each record in it is the first input record with its URL among those that have URL and
  title; every URL of such an input record is represented.
\<close>

theorem safe_articles_contract:
  assumes "\<forall>a\<in>set items. article_like a"
  shows "\<exists>out. safe_articles (PList items) = Inr out
           \<and> subseq out items
           \<and> (\<forall>a\<in>set out. has_url_and_title a)
           \<and> distinct (map url_key out)
           \<and> (\<forall>a\<in>set out. find (\<lambda>b. has_url_and_title b \<and> url_key b = url_key a) items = Some a)
           \<and> (\<forall>b\<in>set items. has_url_and_title b \<longrightarrow> url_key b \<in> url_key ` set out)"
proof -
  from assms have p: "\<forall>a\<in>set items. passes a"
    by (simp add: article_like_passes)
  have r: "safe_articles (PList items) = Inr (kept {} items)"
    using loop_passes [OF p, of "{}" "[]"] by (simp add: safe_articles_PList)
  have "subseq (kept {} items) items" by (rule kept_subseq)
  moreover have "\<forall>a\<in>set (kept {} items). has_url_and_title a"
    using kept_sound by blast
  moreover have "distinct (map url_key (kept {} items))" by (rule kept_distinct)
  moreover have "\<forall>a\<in>set (kept {} items).
      find (\<lambda>b. has_url_and_title b \<and> url_key b = url_key a) items = Some a"
    using kept_first by blast
  moreover have "\<forall>b\<in>set items. has_url_and_title b \<longrightarrow> url_key b \<in> url_key ` set (kept {} items)"
    using kept_covers [of _ items "{}"] by simp
  ultimately show ?thesis using r by blast
qed

theorem safe_articles_contract_witness:
  "list_all article_like [ex_a1, ex_a2, ex_a3, ex_a4]
   \<and> (\<exists>out. safe_articles (PList [ex_a1, ex_a2, ex_a3, ex_a4]) = Inr out
           \<and> out = [ex_a1, ex_a4]
           \<and> subseq out [ex_a1, ex_a2, ex_a3, ex_a4]
           \<and> distinct (map url_key out))"
proof -
  have h: "\<forall>a\<in>set [ex_a1, ex_a2, ex_a3, ex_a4]. article_like a"
    by (simp add: article_like_def ex_defs)
  have e: "safe_articles (PList [ex_a1, ex_a2, ex_a3, ex_a4]) = Inr [ex_a1, ex_a4]"
    by (simp add: safe_articles_def ex_defs)
  from safe_articles_contract [OF h] obtain out
    where "safe_articles (PList [ex_a1, ex_a2, ex_a3, ex_a4]) = Inr out"
      and "subseq out [ex_a1, ex_a2, ex_a3, ex_a4]" and "distinct (map url_key out)"
    by blast
  with e h show ?thesis by (simp add: list_all_iff)
qed

text \<open>
  C8. The sanitizer is idempotent: whatever list it returns, applying it to that list
  returns the list unchanged. Equivalently, a list of article-like records that all
  have a non-empty URL and a non-empty title, with no URL twice, is returned unchanged.
\<close>

theorem safe_articles_idempotent:
  "(safe_articles items = Inr out \<longrightarrow> safe_articles (PList out) = Inr out)
   \<and> ((\<forall>a\<in>set xs. article_like a \<and> has_url_and_title a) \<and> distinct (map url_key xs)
        \<longrightarrow> safe_articles (PList xs) = Inr xs)"
proof (intro conjI impI)
  assume "safe_articles items = Inr out"
  from safe_articles_Inr [OF this] obtain ys
    where p: "\<forall>a\<in>set ys. passes a" and o: "out = kept {} ys" by blast
  have po: "\<forall>a\<in>set out. passes a"
    using p kept_sound [of _ "{}" ys] unfolding o by blast
  have "\<forall>a\<in>set out. has_url_and_title a \<and> url_key a \<notin> {}"
    using kept_sound [of _ "{}" ys] unfolding o by blast
  moreover have "distinct (map url_key out)"
    unfolding o by (rule kept_distinct)
  ultimately have "kept {} out = out" by (rule kept_clean)
  with loop_passes [OF po, of "{}" "[]"] show "safe_articles (PList out) = Inr out"
    by (simp add: safe_articles_PList)
next
  assume a: "(\<forall>a\<in>set xs. article_like a \<and> has_url_and_title a) \<and> distinct (map url_key xs)"
  then have p: "\<forall>a\<in>set xs. passes a" by (simp add: article_like_passes)
  from a have "\<forall>a\<in>set xs. has_url_and_title a \<and> url_key a \<notin> {}" by simp
  moreover from a have "distinct (map url_key xs)" by simp
  ultimately have "kept {} xs = xs" by (rule kept_clean)
  with loop_passes [OF p, of "{}" "[]"] show "safe_articles (PList xs) = Inr xs"
    by (simp add: safe_articles_PList)
qed

theorem safe_articles_idempotent_witness:
  "safe_articles (PList [ex_a1, ex_a2, ex_a3, ex_a4]) = Inr [ex_a1, ex_a4]
   \<and> safe_articles (PList [ex_a1, ex_a4]) = Inr [ex_a1, ex_a4]
   \<and> list_all article_like [ex_a4, ex_a1] \<and> list_all has_url_and_title [ex_a4, ex_a1]
   \<and> distinct (map url_key [ex_a4, ex_a1])
   \<and> safe_articles (PList [ex_a4, ex_a1]) = Inr [ex_a4, ex_a1]"
proof -
  have e: "safe_articles (PList [ex_a1, ex_a2, ex_a3, ex_a4]) = Inr [ex_a1, ex_a4]"
    by (simp add: safe_articles_def ex_defs)
  have h: "(\<forall>a\<in>set [ex_a4, ex_a1]. article_like a \<and> has_url_and_title a)
           \<and> distinct (map url_key [ex_a4, ex_a1])"
    by (simp add: article_like_def has_url_and_title_def url_key_def ex_defs)
  from safe_articles_idempotent [of "PList [ex_a1, ex_a2, ex_a3, ex_a4]" "[ex_a1, ex_a4]" "[ex_a4, ex_a1]"]
    e h show ?thesis by (simp add: list_all_iff)
qed

section \<open>Properties of the feed merger\<close>

lemma extend_all_concat: "extend_all merged ls = merged @ concat ls"
  by (induction ls arbitrary: merged) simp_all

lemma randbelow_less: "0 < n \<Longrightarrow> fst (randbelow n rnd) < n"
  by (simp add: randbelow_def)

lemma shuffle_loop_mset: "i < length x \<Longrightarrow> mset (fst (shuffle_loop i x rnd)) = mset x"
proof (induction i arbitrary: x rnd)
  case 0
  show ?case by simp
next
  case (Suc i)
  obtain j rnd' where r: "randbelow (Suc i + 1) rnd = (j, rnd')"
    by (cases "randbelow (Suc i + 1) rnd")
  from randbelow_less [of "Suc i + 1" rnd] r have j: "j < Suc i + 1" by simp
  let ?y = "x[Suc i := x ! j, j := x ! Suc i]"
  from Suc.prems j have "mset ?y = mset x"
    by (intro mset_swap) simp_all
  moreover from Suc.prems have "i < length ?y" by simp
  then have "mset (fst (shuffle_loop i ?y rnd')) = mset ?y" by (rule Suc.IH)
  ultimately show ?case using r by simp
qed

lemma shuffle_mset: "mset (fst (shuffle x rnd)) = mset x"
proof (cases x)
  case Nil
  then show ?thesis by (simp add: shuffle_def)
next
  case (Cons a rest)
  then have "length x - 1 < length x" by simp
  then show ?thesis unfolding shuffle_def by (rule shuffle_loop_mset)
qed

lemma slice_to_subseq: "subseq (slice_to xs limit) xs"
proof -
  have "subseq (take n xs) xs" for n
    by (metis append_take_drop_id prefixI prefix_imp_subseq)
  then show ?thesis by (simp add: slice_to_def)
qed

lemma merge_shuffle_limit_fst:
  "fst (merge_shuffle_limit ls limit rnd) = slice_to (fst (shuffle (concat ls) rnd)) limit"
  by (simp add: merge_shuffle_limit_def extend_all_concat split: prod.splits)

lemma merge_shuffle_limit_subseq:
  "\<exists>ys. mset ys = mset (concat ls) \<and> subseq (fst (merge_shuffle_limit ls limit rnd)) ys"
  using shuffle_mset [of "concat ls" rnd] slice_to_subseq [of "fst (shuffle (concat ls) rnd)" limit]
  by (auto simp: merge_shuffle_limit_fst)

lemma merge_shuffle_limit_all:
  assumes "int (length (concat ls)) \<le> limit"
  shows "mset (fst (merge_shuffle_limit ls limit rnd)) = mset (concat ls)"
proof -
  let ?ys = "fst (shuffle (concat ls) rnd)"
  have m: "mset ?ys = mset (concat ls)" by (rule shuffle_mset)
  then have "length ?ys = length (concat ls)" by (rule mset_eq_length)
  with assms have "slice_to ?ys limit = ?ys" by (simp add: slice_to_def)
  with m show ?thesis by (simp add: merge_shuffle_limit_fst)
qed

text \<open>
  C2, as the code has it. For every sequence of input lists, every limit that is not
  negative and every state of the random source, the merged feed is no longer than the
  limit and no longer than the input lists together, and each of its elements occurs in
  some input list.
  Nothing is de-duplicated across the input lists: when the limit does not cut, the feed
  holds every element as often as the input lists together do, so an article of two
  input lists is there twice.
\<close>

theorem merge_shuffle_limit_bounds:
  assumes "0 \<le> limit"
  shows "int (length (fst (merge_shuffle_limit ls limit rnd))) \<le> limit
       \<and> length (fst (merge_shuffle_limit ls limit rnd)) \<le> sum_list (map length ls)
       \<and> (\<forall>a\<in>set (fst (merge_shuffle_limit ls limit rnd)). \<exists>l\<in>set ls. a \<in> set l)
       \<and> (int (sum_list (map length ls)) \<le> limit \<longrightarrow>
            mset (fst (merge_shuffle_limit ls limit rnd)) = mset (concat ls))"
proof -
  let ?out = "fst (merge_shuffle_limit ls limit rnd)"
  from merge_shuffle_limit_subseq obtain ys
    where m: "mset ys = mset (concat ls)" and s: "subseq ?out ys" by blast
  have len: "length ys = sum_list (map length ls)"
    using mset_eq_length [OF m] by (simp add: length_concat)
  have "?out = take (nat limit) (fst (shuffle (concat ls) rnd))"
    using assms by (simp add: merge_shuffle_limit_fst slice_to_def)
  then have "length ?out \<le> nat limit" by simp
  with assms have c1: "int (length ?out) \<le> limit" by linarith
  from s have "length ?out \<le> length ys" by (rule list_emb_length)
  with len have c2: "length ?out \<le> sum_list (map length ls)" by simp
  have c3: "\<forall>a\<in>set ?out. \<exists>l\<in>set ls. a \<in> set l"
  proof
    fix a
    assume "a \<in> set ?out"
    with s have "a \<in> set ys" by (auto dest: list_emb_set)
    with m have "a \<in> set (concat ls)" by (metis set_mset_mset)
    then show "\<exists>l\<in>set ls. a \<in> set l" by auto
  qed
  have c4: "int (sum_list (map length ls)) \<le> limit \<longrightarrow> mset ?out = mset (concat ls)"
    using merge_shuffle_limit_all [of ls limit rnd] by (simp add: length_concat)
  from c1 c2 c3 c4 show ?thesis by blast
qed

theorem merge_shuffle_limit_bounds_witness:
  "(0::int) \<le> 18
   \<and> fst (merge_shuffle_limit [[ex_a1, ex_a4], [ex_a1]] 18 rnd_count) = [ex_a1, ex_a1, ex_a4]
   \<and> int (sum_list (map length [[ex_a1, ex_a4], [ex_a1]])) \<le> 18
   \<and> mset (fst (merge_shuffle_limit [[ex_a1, ex_a4], [ex_a1]] 18 rnd_count))
       = mset (concat [[ex_a1, ex_a4], [ex_a1]])
   \<and> count_list (fst (merge_shuffle_limit [[ex_a1, ex_a4], [ex_a1]] 18 rnd_count)) ex_a1 = 2
   \<and> int (length (fst (merge_shuffle_limit [[ex_a1, ex_a4], [ex_a1]] 2 rnd_count))) \<le> 2"
proof -
  have e: "fst (merge_shuffle_limit [[ex_a1, ex_a4], [ex_a1]] 18 rnd_count) = [ex_a1, ex_a1, ex_a4]"
    by (simp add: merge_shuffle_limit_def shuffle_def randbelow_def rnd_count_def slice_to_def
        numeral_2_eq_2)
  have h: "(0::int) \<le> 18" by simp
  have h2: "(0::int) \<le> 2" by simp
  from merge_shuffle_limit_bounds [OF h, of "[[ex_a1, ex_a4], [ex_a1]]" rnd_count]
  have "mset (fst (merge_shuffle_limit [[ex_a1, ex_a4], [ex_a1]] 18 rnd_count))
          = mset (concat [[ex_a1, ex_a4], [ex_a1]])"
    by simp
  moreover from merge_shuffle_limit_bounds [OF h2, of "[[ex_a1, ex_a4], [ex_a1]]" rnd_count]
  have "int (length (fst (merge_shuffle_limit [[ex_a1, ex_a4], [ex_a1]] 2 rnd_count))) \<le> 2"
    by blast
  moreover have "ex_a4 \<noteq> ex_a1" by (simp add: ex_defs)
  ultimately show ?thesis using e by simp
qed

text \<open>C2 as stated, for every limit, fails: with a negative limit the slice drops
  elements from the end instead, and the length is not bounded by the limit. Of three
  articles and limit \<open>-1\<close>, two are returned.\<close>

theorem merge_shuffle_limit_negative_counterexample:
  "fst (merge_shuffle_limit [[ex_a1, ex_a4], [ex_b1]] (- 1) rnd_count) = [ex_b1, ex_a1]
   \<and> \<not> int (length (fst (merge_shuffle_limit [[ex_a1, ex_a4], [ex_b1]] (- 1) rnd_count))) \<le> - 1"
proof -
  have "fst (merge_shuffle_limit [[ex_a1, ex_a4], [ex_b1]] (- 1) rnd_count) = [ex_b1, ex_a1]"
    by code_simp
  then show ?thesis by simp
qed

text \<open>In general a negative limit \<open>-k\<close> returns all but \<open>k\<close> of the elements.\<close>

lemma merge_shuffle_limit_negative:
  "limit < 0 \<Longrightarrow>
   length (fst (merge_shuffle_limit ls limit rnd)) = nat (int (sum_list (map length ls)) + limit)"
proof -
  assume n: "limit < 0"
  have "length (fst (shuffle (concat ls) rnd)) = length (concat ls)"
    using shuffle_mset [of "concat ls" rnd] by (rule mset_eq_length)
  with n show ?thesis
    by (simp add: merge_shuffle_limit_fst slice_to_def length_concat)
qed

lemma safe_articles_clean:
  assumes "\<forall>a\<in>set xs. article_like a \<and> has_url_and_title a" and "distinct (map url_key xs)"
  shows "safe_articles (PList xs) = Inr xs"
proof -
  from assms(1) have p: "\<forall>a\<in>set xs. passes a" by (simp add: article_like_passes)
  from assms(1) have "\<forall>a\<in>set xs. has_url_and_title a \<and> url_key a \<notin> {}" by simp
  then have "kept {} xs = xs" using assms(2) by (rule kept_clean)
  with loop_passes [OF p, of "{}" "[]"] show ?thesis by (simp add: safe_articles_PList)
qed

text \<open>
  C9. Two topic lists of three articles each, every article a record with a non-empty
  URL and a non-empty title, the six URLs distinct: sanitizing returns each list as it
  is (length 3), and merging the two sanitized lists with limit 18 gives a list of
  length 6 that holds the six URLs, in some order.
\<close>

theorem two_topics_scenario:
  assumes "length l1 = 3" and "length l2 = 3"
    and "\<forall>a\<in>set (l1 @ l2). article_like a \<and> has_url_and_title a"
    and "distinct (map url_key (l1 @ l2))"
  shows "\<exists>s1 s2. safe_articles (PList l1) = Inr s1 \<and> safe_articles (PList l2) = Inr s2
           \<and> length s1 = 3 \<and> length s2 = 3
           \<and> length (fst (merge_shuffle_limit [s1, s2] 18 rnd)) = 6
           \<and> mset (map (field ''url'') (fst (merge_shuffle_limit [s1, s2] 18 rnd)))
               = mset (map (field ''url'') (l1 @ l2))"
proof -
  from assms(3,4) have "safe_articles (PList l1) = Inr l1"
    by (intro safe_articles_clean) simp_all
  moreover from assms(3,4) have "safe_articles (PList l2) = Inr l2"
    by (intro safe_articles_clean) simp_all
  moreover have m: "mset (fst (merge_shuffle_limit [l1, l2] 18 rnd)) = mset (concat [l1, l2])"
    using assms(1,2) by (intro merge_shuffle_limit_all) simp
  moreover from m have "length (fst (merge_shuffle_limit [l1, l2] 18 rnd)) = length (concat [l1, l2])"
    by (rule mset_eq_length)
  with assms(1,2) have "length (fst (merge_shuffle_limit [l1, l2] 18 rnd)) = 6" by simp
  moreover from arg_cong [OF m, of "image_mset (field ''url'')"]
  have "mset (map (field ''url'') (fst (merge_shuffle_limit [l1, l2] 18 rnd)))
      = mset (map (field ''url'') (l1 @ l2))"
    by simp
  ultimately show ?thesis using assms(1,2) by blast
qed

theorem two_topics_scenario_witness:
  "length [ex_a1, ex_a4, ex_b1] = 3 \<and> length [ex_b2, ex_b3, ex_b4] = 3
   \<and> list_all article_like ([ex_a1, ex_a4, ex_b1] @ [ex_b2, ex_b3, ex_b4])
   \<and> list_all has_url_and_title ([ex_a1, ex_a4, ex_b1] @ [ex_b2, ex_b3, ex_b4])
   \<and> distinct (map url_key ([ex_a1, ex_a4, ex_b1] @ [ex_b2, ex_b3, ex_b4]))
   \<and> safe_articles (PList [ex_a1, ex_a4, ex_b1]) = Inr [ex_a1, ex_a4, ex_b1]
   \<and> safe_articles (PList [ex_b2, ex_b3, ex_b4]) = Inr [ex_b2, ex_b3, ex_b4]
   \<and> fst (merge_shuffle_limit [[ex_a1, ex_a4, ex_b1], [ex_b2, ex_b3, ex_b4]] 18 rnd_count)
       = [ex_a1, ex_b3, ex_b4, ex_b2, ex_b1, ex_a4]
   \<and> mset (map (field ''url'')
        (fst (merge_shuffle_limit [[ex_a1, ex_a4, ex_b1], [ex_b2, ex_b3, ex_b4]] 18 rnd_count)))
       = mset (map (field ''url'') ([ex_a1, ex_a4, ex_b1] @ [ex_b2, ex_b3, ex_b4]))"
proof -
  have h1: "length [ex_a1, ex_a4, ex_b1] = 3" and h2: "length [ex_b2, ex_b3, ex_b4] = 3"
    by simp_all
  have h3: "\<forall>a\<in>set ([ex_a1, ex_a4, ex_b1] @ [ex_b2, ex_b3, ex_b4]).
              article_like a \<and> has_url_and_title a"
    by (simp add: article_like_def has_url_and_title_def ex_defs)
  have h4: "distinct (map url_key ([ex_a1, ex_a4, ex_b1] @ [ex_b2, ex_b3, ex_b4]))"
    by (simp add: url_key_def ex_defs)
  have e1: "safe_articles (PList [ex_a1, ex_a4, ex_b1]) = Inr [ex_a1, ex_a4, ex_b1]"
    by (simp add: safe_articles_def ex_defs)
  have e2: "safe_articles (PList [ex_b2, ex_b3, ex_b4]) = Inr [ex_b2, ex_b3, ex_b4]"
    by (simp add: safe_articles_def ex_defs)
  have e3: "fst (merge_shuffle_limit [[ex_a1, ex_a4, ex_b1], [ex_b2, ex_b3, ex_b4]] 18 rnd_count)
       = [ex_a1, ex_b3, ex_b4, ex_b2, ex_b1, ex_a4]"
    by code_simp
  from two_topics_scenario [OF h1 h2 h3 h4, of rnd_count] e1 e2
  have "mset (map (field ''url'')
        (fst (merge_shuffle_limit [[ex_a1, ex_a4, ex_b1], [ex_b2, ex_b3, ex_b4]] 18 rnd_count)))
       = mset (map (field ''url'') ([ex_a1, ex_a4, ex_b1] @ [ex_b2, ex_b3, ex_b4]))"
    by auto
  with h3 h4 e1 e2 e3 show ?thesis by (simp add: list_all_iff)
qed

section \<open>Properties of the article source adapter\<close>

lemma try_except_return_total: "\<exists>xs. try_except_return oc = Inr xs"
proof (cases "try_block oc")
  case (Inl e)
  then show ?thesis by (cases e) (simp_all add: try_except_return_def)
next
  case (Inr r)
  then show ?thesis by (cases r) (simp_all add: try_except_return_def)
qed

lemma try_except_return_failure: "failure oc \<Longrightarrow> try_except_return oc = Inr []"
proof (cases oc)
  case Get_raises
  then show ?thesis by (simp add: try_except_return_def try_block_def)
next
  case Json_raises
  then show ?thesis by (simp add: try_except_return_def try_block_def)
next
  case (Json data)
  assume "failure oc"
  with Json have n: "py_get data ''status'' PNone \<noteq> Inr (PStr ''ok'')"
    by (simp add: status_ok_def)
  show ?thesis
  proof (cases "py_get data ''status'' PNone")
    case (Inl e)
    with Json show ?thesis
      by (cases e) (simp_all add: try_except_return_def try_block_def)
  next
    case (Inr st)
    with n have "st \<noteq> PStr ''ok''" by simp
    with Inr Json show ?thesis by (simp add: try_except_return_def try_block_def)
  qed
qed

lemma try_except_return_ok:
  assumes "status_ok data"
  shows "try_except_return (Json data) = Inr (sanitized_or_empty (articles_of data))"
proof -
  from assms obtain kvs where d: "data = PDict kvs"
    by (cases data) (simp_all add: status_ok_def)
  from assms have s: "py_get data ''status'' PNone = Inr (PStr ''ok'')"
    by (simp add: status_ok_def)
  show ?thesis
  proof (cases "safe_articles (articles_of data)")
    case (Inl e)
    with s d show ?thesis
      by (cases e) (simp_all add: try_except_return_def try_block_def articles_of_def
          sanitized_or_empty_def)
  next
    case (Inr xs)
    with s d show ?thesis
      by (simp add: try_except_return_def try_block_def articles_of_def sanitized_or_empty_def)
  qed
qed

lemma fetch_news_for_topic_total: "\<exists>xs. fetch_news_for_topic env prov topic page_size page = Inr xs"
  using try_except_return_total
  by (auto simp: fetch_news_for_topic_def split: option.splits)

lemma fetch_top_headlines_total: "\<exists>xs. fetch_top_headlines env prov country page_size page = Inr xs"
  using try_except_return_total
  by (auto simp: fetch_top_headlines_def split: option.splits)

lemmas adapter_defs =
  fetch_top_headlines_def fetch_news_for_topic_def try_except_return_def try_block_def
  top_headlines_request_def topic_search_request_def API_KEY_def TOP_NEWS_URL_def SEARCH_URL_def
  ex_env_def ex_provider_def ex_response_def ex_error_response_def

text \<open>
  C5. Each adapter call, top headlines and topic search, returns a list and never
  raises, whatever the provider does. It returns the empty list when the API key is
  absent, and, with a key, when the call raises (transport error), when the body is not
  JSON, and when the response does not report the status \<open>ok\<close>.
\<close>

theorem adapter_failure_empty:
  "(\<exists>xs. fetch_top_headlines env prov country page_size page = Inr xs)
   \<and> (\<exists>xs. fetch_news_for_topic env prov topic page_size page = Inr xs)
   \<and> (key_absent env \<longrightarrow>
        fetch_top_headlines env prov country page_size page = Inr []
        \<and> fetch_news_for_topic env prov topic page_size page = Inr [])
   \<and> (\<forall>key. API_KEY env = Some key
          \<and> failure (prov (top_headlines_request key country page_size page)) \<longrightarrow>
        fetch_top_headlines env prov country page_size page = Inr [])
   \<and> (\<forall>key. API_KEY env = Some key
          \<and> failure (prov (topic_search_request key topic page_size page)) \<longrightarrow>
        fetch_news_for_topic env prov topic page_size page = Inr [])"
proof (intro conjI allI impI)
  show "\<exists>xs. fetch_top_headlines env prov country page_size page = Inr xs"
    by (rule fetch_top_headlines_total)
  show "\<exists>xs. fetch_news_for_topic env prov topic page_size page = Inr xs"
    by (rule fetch_news_for_topic_total)
next
  assume "key_absent env"
  then show "fetch_top_headlines env prov country page_size page = Inr []"
    by (simp add: key_absent_def fetch_top_headlines_def split: option.splits)
next
  assume "key_absent env"
  then show "fetch_news_for_topic env prov topic page_size page = Inr []"
    by (simp add: key_absent_def fetch_news_for_topic_def split: option.splits)
next
  fix key
  assume "API_KEY env = Some key
    \<and> failure (prov (top_headlines_request key country page_size page))"
  then show "fetch_top_headlines env prov country page_size page = Inr []"
    by (simp add: fetch_top_headlines_def try_except_return_failure)
next
  fix key
  assume "API_KEY env = Some key
    \<and> failure (prov (topic_search_request key topic page_size page))"
  then show "fetch_news_for_topic env prov topic page_size page = Inr []"
    by (simp add: fetch_news_for_topic_def try_except_return_failure)
qed

theorem adapter_failure_empty_witness:
  "key_absent Map.empty
   \<and> fetch_top_headlines Map.empty ex_provider ''us'' 12 1 = Inr []
   \<and> fetch_news_for_topic Map.empty ex_provider ''sports'' 10 1 = Inr []
   \<and> API_KEY ex_env = Some ''k123''
   \<and> failure (ex_provider (topic_search_request ''k123'' ''sports'' 10 2))
   \<and> fetch_news_for_topic ex_env ex_provider ''sports'' 10 2 = Inr []
   \<and> failure (ex_provider (topic_search_request ''k123'' ''science'' 10 3))
   \<and> fetch_news_for_topic ex_env ex_provider ''science'' 10 3 = Inr []"
proof -
  have a: "key_absent Map.empty"
    by (simp add: key_absent_def API_KEY_def)
  have k: "API_KEY ex_env = Some ''k123''"
    by (simp add: API_KEY_def ex_env_def)
  have f1: "failure (ex_provider (topic_search_request ''k123'' ''sports'' 10 2))"
    by (simp add: ex_provider_def topic_search_request_def TOP_NEWS_URL_def SEARCH_URL_def
        ex_error_response_def status_ok_def)
  have f2: "failure (ex_provider (topic_search_request ''k123'' ''science'' 10 3))"
    by (simp add: ex_provider_def topic_search_request_def TOP_NEWS_URL_def SEARCH_URL_def)
  from adapter_failure_empty [of Map.empty ex_provider "''us''" 12 1 "''sports''"] a
  have "fetch_top_headlines Map.empty ex_provider ''us'' 12 1 = Inr []
        \<and> fetch_news_for_topic Map.empty ex_provider ''sports'' 10 1 = Inr []"
    by (simp add: fetch_top_headlines_def fetch_news_for_topic_def API_KEY_def)
  moreover from adapter_failure_empty [of ex_env ex_provider "''us''" 10 2 "''sports''"] k f1
  have "fetch_news_for_topic ex_env ex_provider ''sports'' 10 2 = Inr []"
    by blast
  moreover from adapter_failure_empty [of ex_env ex_provider "''us''" 10 3 "''science''"] k f2
  have "fetch_news_for_topic ex_env ex_provider ''science'' 10 3 = Inr []"
    by blast
  ultimately show ?thesis using a k f1 f2 by simp
qed

text \<open>
  C6, as the code has it. With a key configured and a response that reports the status
  \<open>ok\<close>, the adapter returns the provider's articles after the sanitizer has been
  applied to them: the sanitized list, or the empty list when the articles value is not
  a list of records the sanitizer can walk. A list of article-like records that all have
  URL and title and no URL twice comes back as it is.
\<close>

theorem adapter_success_sanitized:
  assumes "API_KEY env = Some key" and "key \<noteq> []" and "status_ok data"
  shows "(prov (top_headlines_request key country page_size page) = Json data \<longrightarrow>
            fetch_top_headlines env prov country page_size page
              = Inr (sanitized_or_empty (articles_of data)))
       \<and> (prov (topic_search_request key topic page_size page) = Json data \<longrightarrow>
            fetch_news_for_topic env prov topic page_size page
              = Inr (sanitized_or_empty (articles_of data)))
       \<and> (\<forall>xs. articles_of data = PList xs
              \<and> (\<forall>a\<in>set xs. article_like a \<and> has_url_and_title a)
              \<and> distinct (map url_key xs) \<longrightarrow>
            sanitized_or_empty (articles_of data) = xs)"
proof (intro conjI allI impI)
  assume "prov (top_headlines_request key country page_size page) = Json data"
  with assms show "fetch_top_headlines env prov country page_size page
      = Inr (sanitized_or_empty (articles_of data))"
    by (simp add: fetch_top_headlines_def try_except_return_ok)
next
  assume "prov (topic_search_request key topic page_size page) = Json data"
  with assms show "fetch_news_for_topic env prov topic page_size page
      = Inr (sanitized_or_empty (articles_of data))"
    by (simp add: fetch_news_for_topic_def try_except_return_ok)
next
  fix xs
  assume a: "articles_of data = PList xs
    \<and> (\<forall>a\<in>set xs. article_like a \<and> has_url_and_title a) \<and> distinct (map url_key xs)"
  then have "safe_articles (PList xs) = Inr xs"
    by (intro safe_articles_clean) simp_all
  with a show "sanitized_or_empty (articles_of data) = xs"
    by (simp add: sanitized_or_empty_def)
qed

theorem adapter_success_sanitized_witness:
  "API_KEY ex_env = Some ''k123'' \<and> ''k123'' \<noteq> [] \<and> status_ok ex_response
   \<and> ex_provider (top_headlines_request ''k123'' ''us'' 12 1) = Json ex_response
   \<and> ex_provider (topic_search_request ''k123'' ''technology'' 10 1) = Json ex_response
   \<and> sanitized_or_empty (articles_of ex_response) = [ex_a1, ex_a4]
   \<and> fetch_top_headlines ex_env ex_provider ''us'' 12 1 = Inr [ex_a1, ex_a4]
   \<and> fetch_news_for_topic ex_env ex_provider ''technology'' 10 1 = Inr [ex_a1, ex_a4]"
proof -
  have k: "API_KEY ex_env = Some ''k123''" and n: "''k123'' \<noteq> []"
    by (simp_all add: API_KEY_def ex_env_def)
  have o: "status_ok ex_response"
    by (simp add: status_ok_def ex_response_def)
  have p1: "ex_provider (top_headlines_request ''k123'' ''us'' 12 1) = Json ex_response"
    by (simp add: ex_provider_def top_headlines_request_def)
  have p2: "ex_provider (topic_search_request ''k123'' ''technology'' 10 1) = Json ex_response"
    by (simp add: ex_provider_def topic_search_request_def TOP_NEWS_URL_def SEARCH_URL_def)
  have s: "sanitized_or_empty (articles_of ex_response) = [ex_a1, ex_a4]"
    by (simp add: sanitized_or_empty_def articles_of_def ex_response_def safe_articles_def ex_defs)
  from adapter_success_sanitized [OF k n o, of ex_provider "''us''" 12 1 "''technology''"] p1 p2
  have "fetch_top_headlines ex_env ex_provider ''us'' 12 1
          = Inr (sanitized_or_empty (articles_of ex_response))"
    by blast
  moreover
  from adapter_success_sanitized [OF k n o, of ex_provider "''us''" 10 1 "''technology''"] p2
  have "fetch_news_for_topic ex_env ex_provider ''technology'' 10 1
          = Inr (sanitized_or_empty (articles_of ex_response))"
    by blast
  ultimately show ?thesis using k o p1 p2 s by simp
qed

text \<open>C6 as stated fails: the articles array of a successful response is not returned
  verbatim. Of the four records of the example response the adapter returns two.\<close>

theorem adapter_verbatim_counterexample:
  "API_KEY ex_env = Some ''k123''
   \<and> ex_provider (top_headlines_request ''k123'' ''us'' 12 1) = Json ex_response
   \<and> ex_provider (topic_search_request ''k123'' ''technology'' 10 1) = Json ex_response
   \<and> status_ok ex_response
   \<and> articles_of ex_response = PList [ex_a1, ex_a2, ex_a3, ex_a4]
   \<and> fetch_top_headlines ex_env ex_provider ''us'' 12 1 = Inr [ex_a1, ex_a4]
   \<and> fetch_top_headlines ex_env ex_provider ''us'' 12 1 \<noteq> Inr [ex_a1, ex_a2, ex_a3, ex_a4]
   \<and> fetch_news_for_topic ex_env ex_provider ''technology'' 10 1 = Inr [ex_a1, ex_a4]
   \<and> fetch_news_for_topic ex_env ex_provider ''technology'' 10 1
       \<noteq> Inr [ex_a1, ex_a2, ex_a3, ex_a4]"
proof -
  have t: "fetch_top_headlines ex_env ex_provider ''us'' 12 1 = Inr [ex_a1, ex_a4]"
    by (simp add: adapter_defs safe_articles_def ex_defs)
  have n: "fetch_news_for_topic ex_env ex_provider ''technology'' 10 1 = Inr [ex_a1, ex_a4]"
    by (simp add: adapter_defs safe_articles_def ex_defs)
  have "API_KEY ex_env = Some ''k123''"
    by (simp add: API_KEY_def ex_env_def)
  moreover have "ex_provider (top_headlines_request ''k123'' ''us'' 12 1) = Json ex_response"
    by (simp add: ex_provider_def top_headlines_request_def)
  moreover have "ex_provider (topic_search_request ''k123'' ''technology'' 10 1) = Json ex_response"
    by (simp add: ex_provider_def topic_search_request_def TOP_NEWS_URL_def SEARCH_URL_def)
  moreover have "status_ok ex_response"
    by (simp add: status_ok_def ex_response_def)
  moreover have "articles_of ex_response = PList [ex_a1, ex_a2, ex_a3, ex_a4]"
    by (simp add: articles_of_def ex_response_def)
  ultimately show ?thesis using t n by simp
qed

lemmas ex_auth_defs =
  ex_lib_def ex_alice_def ex_bob_def ex_login_form_def ex_register_form_def
  ascii_strip_def ascii_lower_def ascii_space_def hash_password_def

section \<open>Properties of login\<close>

lemma find_Some_member: "find P xs = Some x \<Longrightarrow> x \<in> set xs \<and> P x"
  by (induction xs) (auto split: if_splits)

lemma find_None_none: "(find P xs = None) = (\<not> (\<exists>x\<in>set xs. P x))"
  by (induction xs) auto

lemma login_post:
  assumes "req_method req = POST" and "form req ''email'' = Some e" and "form req ''password'' = Some p"
  shows "login L rows sess req =
     (case find (\<lambda>u. email u = str_lower L (str_strip L e) \<and> password_hash u = hash_password L p) rows of
        Some u \<Rightarrow> (sess\<lparr>session_user_id := Some (uid u), session_email := Some (email u)\<rparr>,
                   Redirect ''home'')
      | None \<Rightarrow> (sess, Text ''Invalid credentials''))"
  using assms by (simp add: login_def filter_by_email_password_first_def)

text \<open>
  C3. For every store of users and every submitted pair of email and password, login
  succeeds (redirects to the home page) if and only if some stored user has the
  submitted email, stripped and lowercased, as email and the hash of the submitted
  password as password hash. On success the session holds that user's id and email;
  otherwise the session is unchanged and the answer is the text
  \<open>Invalid credentials\<close>.
\<close>

theorem login_iff_credentials:
  assumes "req_method req = POST" and "form req ''email'' = Some e" and "form req ''password'' = Some p"
  shows "((snd (login L rows sess req) = Redirect ''home'')
            = (\<exists>u\<in>set rows. email u = str_lower L (str_strip L e)
                 \<and> password_hash u = hash_password L p))
       \<and> (snd (login L rows sess req) = Redirect ''home'' \<longrightarrow>
            (\<exists>u\<in>set rows. email u = str_lower L (str_strip L e)
               \<and> password_hash u = hash_password L p
               \<and> fst (login L rows sess req)
                   = sess\<lparr>session_user_id := Some (uid u), session_email := Some (email u)\<rparr>))
       \<and> (snd (login L rows sess req) \<noteq> Redirect ''home'' \<longrightarrow>
            login L rows sess req = (sess, Text ''Invalid credentials''))"
proof (cases "find (\<lambda>u. email u = str_lower L (str_strip L e)
                        \<and> password_hash u = hash_password L p) rows")
  case None
  then have "\<not> (\<exists>u\<in>set rows. email u = str_lower L (str_strip L e)
                  \<and> password_hash u = hash_password L p)"
    by (simp add: find_None_none)
  moreover from None have "login L rows sess req = (sess, Text ''Invalid credentials'')"
    by (simp add: login_post [OF assms])
  ultimately show ?thesis by simp
next
  case (Some u)
  from find_Some_member [OF Some]
  have u: "u \<in> set rows" "email u = str_lower L (str_strip L e)"
    "password_hash u = hash_password L p"
    by simp_all
  from Some have l: "login L rows sess req =
      (sess\<lparr>session_user_id := Some (uid u), session_email := Some (email u)\<rparr>, Redirect ''home'')"
    by (simp add: login_post [OF assms])
  from u l show ?thesis by auto
qed

theorem login_iff_credentials_witness:
  "req_method (ex_login_form ''  Alice@Example.COM '' ''wonderland'') = POST
   \<and> form (ex_login_form ''  Alice@Example.COM '' ''wonderland'') ''email''
       = Some ''  Alice@Example.COM ''
   \<and> form (ex_login_form ''  Alice@Example.COM '' ''wonderland'') ''password''
       = Some ''wonderland''
   \<and> login ex_lib [ex_alice, ex_bob] anonymous (ex_login_form ''  Alice@Example.COM '' ''wonderland'')
       = (\<lparr>session_user_id = Some 1, session_email = Some ''alice@example.com''\<rparr>, Redirect ''home'')
   \<and> login ex_lib [ex_alice, ex_bob] anonymous (ex_login_form ''alice@example.com'' ''builder'')
       = (anonymous, Text ''Invalid credentials'')"
proof -
  let ?good = "ex_login_form ''  Alice@Example.COM '' ''wonderland''"
  let ?bad = "ex_login_form ''alice@example.com'' ''builder''"
  have g: "req_method ?good = POST" "form ?good ''email'' = Some ''  Alice@Example.COM ''"
    "form ?good ''password'' = Some ''wonderland''"
    by (simp_all add: ex_login_form_def)
  have b: "req_method ?bad = POST" "form ?bad ''email'' = Some ''alice@example.com''"
    "form ?bad ''password'' = Some ''builder''"
    by (simp_all add: ex_login_form_def)
  have s: "snd (login ex_lib [ex_alice, ex_bob] anonymous ?bad) \<noteq> Redirect ''home''"
    by (simp add: login_def filter_by_email_password_first_def ex_auth_defs)
  from login_iff_credentials [OF b, of ex_lib "[ex_alice, ex_bob]" anonymous] s
  have "login ex_lib [ex_alice, ex_bob] anonymous ?bad = (anonymous, Text ''Invalid credentials'')"
    by blast
  moreover have "login ex_lib [ex_alice, ex_bob] anonymous ?good
       = (\<lparr>session_user_id = Some 1, session_email = Some ''alice@example.com''\<rparr>, Redirect ''home'')"
    by (simp add: login_def filter_by_email_password_first_def ex_auth_defs anonymous_def)
  ultimately show ?thesis using g by simp
qed

section \<open>Properties of registration\<close>

lemma register_post:
  assumes "req_method req = POST" and "form req ''name'' = Some n" and "form req ''email'' = Some e"
    and "form req ''password'' = Some p"
  shows "register L rows req =
     (if \<exists>u\<in>set rows. email u = str_lower L (str_strip L e)
      then (rows, Text ''Email already registered. Try logging in.'')
      else (rows @ [\<lparr>uid = next_id rows, name = str_strip L n,
                     email = str_lower L (str_strip L e),
                     password_hash = hash_password L p,
                     interests = str_strip L (case form req ''interests'' of
                                                None \<Rightarrow> [] | Some i \<Rightarrow> i)\<rparr>],
            Redirect ''login''))"
  using assms
  by (simp add: register_def filter_by_email_first_def find_None_none add_commit_def Let_def)

lemma register_post_has_email:
  assumes "req_method req = POST" and "form req ''name'' = Some n" and "form req ''email'' = Some e"
    and "form req ''password'' = Some p"
  shows "\<exists>u\<in>set (fst (register L rows req)). email u = str_lower L (str_strip L e)"
  by (simp add: register_post [OF assms])

text \<open>
  C4. For every store of users and every registration submission (a POST that carries
  name, email and password), a user is created if and only if no stored user has the
  submitted email, stripped and lowercased; the new row has that email. Otherwise the
  store is unchanged and the answer is the plain text
  \<open>Email already registered. Try logging in.\<close>, not a redirect. A second submission
  with an email that normalizes to the same address fails in this way.
\<close>

theorem register_iff_new_email:
  assumes "req_method req = POST" and "form req ''name'' = Some n" and "form req ''email'' = Some e"
    and "form req ''password'' = Some p"
  shows "((fst (register L rows req) \<noteq> rows)
            = (\<not> (\<exists>u\<in>set rows. email u = str_lower L (str_strip L e))))
       \<and> (\<not> (\<exists>u\<in>set rows. email u = str_lower L (str_strip L e)) \<longrightarrow>
            register L rows req =
              (rows @ [\<lparr>uid = next_id rows, name = str_strip L n,
                        email = str_lower L (str_strip L e),
                        password_hash = hash_password L p,
                        interests = str_strip L (case form req ''interests'' of
                                                   None \<Rightarrow> [] | Some i \<Rightarrow> i)\<rparr>],
               Redirect ''login''))
       \<and> ((\<exists>u\<in>set rows. email u = str_lower L (str_strip L e)) \<longrightarrow>
            register L rows req = (rows, Text ''Email already registered. Try logging in.''))
       \<and> (\<forall>req2 n2 e2 p2.
            req_method req2 = POST \<and> form req2 ''name'' = Some n2 \<and> form req2 ''email'' = Some e2
            \<and> form req2 ''password'' = Some p2
            \<and> str_lower L (str_strip L e2) = str_lower L (str_strip L e) \<longrightarrow>
            register L (fst (register L rows req)) req2
              = (fst (register L rows req), Text ''Email already registered. Try logging in.''))"
proof (intro conjI allI impI)
  show "(fst (register L rows req) \<noteq> rows)
      = (\<not> (\<exists>u\<in>set rows. email u = str_lower L (str_strip L e)))"
    by (simp add: register_post [OF assms])
next
  assume "\<not> (\<exists>u\<in>set rows. email u = str_lower L (str_strip L e))"
  then show "register L rows req =
      (rows @ [\<lparr>uid = next_id rows, name = str_strip L n,
                email = str_lower L (str_strip L e),
                password_hash = hash_password L p,
                interests = str_strip L (case form req ''interests'' of
                                           None \<Rightarrow> [] | Some i \<Rightarrow> i)\<rparr>],
       Redirect ''login'')"
    by (simp add: register_post [OF assms])
next
  assume "\<exists>u\<in>set rows. email u = str_lower L (str_strip L e)"
  then show "register L rows req = (rows, Text ''Email already registered. Try logging in.'')"
    by (simp add: register_post [OF assms])
next
  fix req2 :: request and n2 e2 p2
  assume a: "req_method req2 = POST \<and> form req2 ''name'' = Some n2 \<and> form req2 ''email'' = Some e2
      \<and> form req2 ''password'' = Some p2
      \<and> str_lower L (str_strip L e2) = str_lower L (str_strip L e)"
  from register_post_has_email [OF assms, of L rows] a
  have "\<exists>u\<in>set (fst (register L rows req)). email u = str_lower L (str_strip L e2)"
    by simp
  moreover from a have r2: "req_method req2 = POST" "form req2 ''name'' = Some n2"
    "form req2 ''email'' = Some e2" "form req2 ''password'' = Some p2"
    by simp_all
  note register_post [OF r2, of L "fst (register L rows req)"]
  ultimately show "register L (fst (register L rows req)) req2
      = (fst (register L rows req), Text ''Email already registered. Try logging in.'')"
    by simp
qed

theorem register_iff_new_email_witness:
  "req_method (ex_register_form ''Alice'' ''alice@example.com'' ''wonderland'') = POST
   \<and> form (ex_register_form ''Alice'' ''alice@example.com'' ''wonderland'') ''name'' = Some ''Alice''
   \<and> form (ex_register_form ''Alice'' ''alice@example.com'' ''wonderland'') ''email''
       = Some ''alice@example.com''
   \<and> form (ex_register_form ''Alice'' ''alice@example.com'' ''wonderland'') ''password''
       = Some ''wonderland''
   \<and> register ex_lib [] (ex_register_form ''Alice'' ''alice@example.com'' ''wonderland'')
       = ([\<lparr>uid = 1, name = ''Alice'', email = ''alice@example.com'',
             password_hash = ''digest:wonderland'', interests = []\<rparr>], Redirect ''login'')
   \<and> register ex_lib
         (fst (register ex_lib [] (ex_register_form ''Alice'' ''alice@example.com'' ''wonderland'')))
         (ex_register_form ''Eve'' '' ALICE@example.com'' ''x'')
       = (fst (register ex_lib [] (ex_register_form ''Alice'' ''alice@example.com'' ''wonderland'')),
          Text ''Email already registered. Try logging in.'')"
proof -
  let ?r1 = "ex_register_form ''Alice'' ''alice@example.com'' ''wonderland''"
  let ?r2 = "ex_register_form ''Eve'' '' ALICE@example.com'' ''x''"
  have h: "req_method ?r1 = POST" "form ?r1 ''name'' = Some ''Alice''"
    "form ?r1 ''email'' = Some ''alice@example.com''" "form ?r1 ''password'' = Some ''wonderland''"
    by (simp_all add: ex_register_form_def)
  have h2: "req_method ?r2 = POST \<and> form ?r2 ''name'' = Some ''Eve''
    \<and> form ?r2 ''email'' = Some '' ALICE@example.com'' \<and> form ?r2 ''password'' = Some ''x''
    \<and> str_lower ex_lib (str_strip ex_lib '' ALICE@example.com'')
        = str_lower ex_lib (str_strip ex_lib ''alice@example.com'')"
    by (simp add: ex_auth_defs)
  have n: "\<not> (\<exists>u\<in>set []. email u = str_lower ex_lib (str_strip ex_lib ''alice@example.com''))"
    by simp
  note t = register_iff_new_email [OF h, of ex_lib "[]"]
  from t n have "register ex_lib [] ?r1 =
      ([] @ [\<lparr>uid = next_id [], name = str_strip ex_lib ''Alice'',
               email = str_lower ex_lib (str_strip ex_lib ''alice@example.com''),
               password_hash = hash_password ex_lib ''wonderland'',
               interests = str_strip ex_lib (case form ?r1 ''interests'' of
                                               None \<Rightarrow> [] | Some i \<Rightarrow> i)\<rparr>],
       Redirect ''login'')"
    by blast
  then have a: "register ex_lib [] ?r1
       = ([\<lparr>uid = 1, name = ''Alice'', email = ''alice@example.com'',
             password_hash = ''digest:wonderland'', interests = []\<rparr>], Redirect ''login'')"
    by (simp add: ex_auth_defs next_id_def)
  from t h2 have "register ex_lib (fst (register ex_lib [] ?r1)) ?r2
       = (fst (register ex_lib [] ?r1), Text ''Email already registered. Try logging in.'')"
    by blast
  with a h show ?thesis by simp
qed

section \<open>Properties of the admin gate\<close>

text \<open>
  C7. The admin gate returns normally if and only if the email stored in the session
  is the configured administrator email, string for string. Every other session, the
  anonymous one with no stored email among them, is refused with status 403, and so
  are the two admin pages.
\<close>

theorem admin_gate_exact_match:
  "((admin_required env sess = Inr ()) = (session_email sess = Some (ADMIN_EMAIL env)))
   \<and> (session_email sess \<noteq> Some (ADMIN_EMAIL env) \<longrightarrow>
        admin_required env sess = Inl (Abort 403)
        \<and> show_users env rows sess = Abort 403
        \<and> user_count env rows sess = Abort 403)
   \<and> admin_required env anonymous = Inl (Abort 403)
   \<and> admin_required env (fst (logout sess)) = Inl (Abort 403)"
  by (simp add: admin_required_def show_users_def user_count_def anonymous_def logout_def)

theorem admin_gate_exact_match_witness:
  "ADMIN_EMAIL Map.empty = ''admin@example.com''
   \<and> admin_required Map.empty
        \<lparr>session_user_id = Some 2, session_email = Some ''admin@example.com''\<rparr> = Inr ()
   \<and> show_users Map.empty [ex_alice, ex_bob]
        \<lparr>session_user_id = Some 2, session_email = Some ''admin@example.com''\<rparr>
       = Rendered ''admin_users.html''
   \<and> session_email \<lparr>session_user_id = Some 1, session_email = Some ''alice@example.com''\<rparr>
       \<noteq> Some (ADMIN_EMAIL Map.empty)
   \<and> admin_required Map.empty
        \<lparr>session_user_id = Some 1, session_email = Some ''alice@example.com''\<rparr> = Inl (Abort 403)
   \<and> show_users Map.empty [ex_alice, ex_bob]
        \<lparr>session_user_id = Some 1, session_email = Some ''alice@example.com''\<rparr> = Abort 403
   \<and> admin_required [''ADMIN_EMAIL'' \<mapsto> ''Root@example.com'']
        \<lparr>session_user_id = Some 3, session_email = Some ''root@example.com''\<rparr> = Inl (Abort 403)"
proof -
  let ?admin = "\<lparr>session_user_id = Some 2, session_email = Some ''admin@example.com''\<rparr>"
  let ?alice = "\<lparr>session_user_id = Some 1, session_email = Some ''alice@example.com''\<rparr>"
  let ?root = "\<lparr>session_user_id = Some 3, session_email = Some ''root@example.com''\<rparr>"
  let ?env = "[''ADMIN_EMAIL'' \<mapsto> ''Root@example.com'']"
  have d: "ADMIN_EMAIL Map.empty = ''admin@example.com''"
    by (simp add: ADMIN_EMAIL_def)
  have e: "ADMIN_EMAIL ?env = ''Root@example.com''"
    by (simp add: ADMIN_EMAIL_def)
  have s: "show_users Map.empty [ex_alice, ex_bob] ?admin = Rendered ''admin_users.html''"
    by (simp add: show_users_def admin_required_def d)
  from admin_gate_exact_match [of Map.empty ?admin "[ex_alice, ex_bob]"] d
  have "admin_required Map.empty ?admin = Inr ()" by simp
  moreover from admin_gate_exact_match [of Map.empty ?alice "[ex_alice, ex_bob]"] d
  have "admin_required Map.empty ?alice = Inl (Abort 403)
        \<and> show_users Map.empty [ex_alice, ex_bob] ?alice = Abort 403"
    by simp
  moreover from admin_gate_exact_match [of ?env ?root "[ex_alice, ex_bob]"] e
  have "admin_required ?env ?root = Inl (Abort 403)"
    by simp
  ultimately show ?thesis using d s by simp
qed

section \<open>Properties of the home page\<close>

lemma topic_feeds_loop_total:
  "\<exists>fs rnd'. topic_feeds_loop env prov ts rnd acc = Inr (fs, rnd')
      \<and> length fs = length acc + length ts"
proof (induction ts arbitrary: rnd acc)
  case Nil
  show ?case by simp
next
  case (Cons t ts)
  obtain page rnd1 where r: "randint 1 3 rnd = (page, rnd1)"
    by (cases "randint 1 3 rnd")
  from fetch_news_for_topic_total obtain feed
    where f: "fetch_news_for_topic env prov t 10 page = Inr feed" by blast
  from Cons.IH [of rnd1 "acc @ [feed]"] obtain fs rnd'
    where "topic_feeds_loop env prov ts rnd1 (acc @ [feed]) = Inr (fs, rnd')"
      and "length fs = length (acc @ [feed]) + length ts" by blast
  with r f show ?case by simp
qed

text \<open>
  C10. For every authenticated user (the session's user id names a stored user) whose
  interests string is not empty but leaves no topic after splitting on commas,
  stripping and dropping the empty pieces, the home page is the personalized feed over
  the default topics technology, science, sports: it is rendered as personalized, with
  these three topics, and its articles are the merge, with limit 18, of the three
  topic-search feeds; the top-headlines branch is not taken.
\<close>

theorem home_blank_interests_defaults:
  assumes "session_user_id sess = Some i" and "session_get_user rows i = Some u"
    and "interests u \<noteq> []"
    and "filter (\<lambda>t. t \<noteq> []) (map (str_strip L) (split_comma (interests u))) = []"
  shows "home L env prov rows sess rnd
           = personalized_feed env prov (Some u) [''technology'', ''science'', ''sports''] rnd
       \<and> (\<exists>pg rnd2 fs rnd1.
            home L env prov rows sess rnd = Inr (pg, rnd2)
            \<and> personalized pg
            \<and> topics pg = [''technology'', ''science'', ''sports'']
            \<and> page_user pg = Some u
            \<and> topic_feeds_loop env prov [''technology'', ''science'', ''sports''] rnd [] = Inr (fs, rnd1)
            \<and> length fs = 3
            \<and> articles pg = fst (merge_shuffle_limit fs 18 rnd1))"
proof -
  have h: "home L env prov rows sess rnd
      = personalized_feed env prov (Some u) [''technology'', ''science'', ''sports''] rnd"
    using assms by (simp add: home_def)
  from topic_feeds_loop_total [of env prov "[''technology'', ''science'', ''sports'']" rnd "[]"]
  obtain fs rnd1
    where t: "topic_feeds_loop env prov [''technology'', ''science'', ''sports''] rnd [] = Inr (fs, rnd1)"
      and l: "length fs = 3" by auto
  obtain arts rnd2 where m: "merge_shuffle_limit fs 18 rnd1 = (arts, rnd2)"
    by (cases "merge_shuffle_limit fs 18 rnd1")
  have p: "personalized_feed env prov (Some u) [''technology'', ''science'', ''sports''] rnd
      = Inr (\<lparr>articles = arts, page_user = Some u, personalized = True,
              topics = [''technology'', ''science'', ''sports'']\<rparr>, rnd2)"
    using t m by (simp add: personalized_feed_def)
  from m have "arts = fst (merge_shuffle_limit fs 18 rnd1)" by simp
  with h p t l show ?thesis by simp
qed

theorem home_blank_interests_defaults_witness:
  "session_user_id \<lparr>session_user_id = Some 2, session_email = Some ''admin@example.com''\<rparr> = Some 2
   \<and> session_get_user [ex_alice, ex_bob] 2 = Some ex_bob
   \<and> interests ex_bob = '',, ''
   \<and> filter (\<lambda>t. t \<noteq> []) (map (str_strip ex_lib) (split_comma (interests ex_bob))) = []
   \<and> map_sum id fst
        (home ex_lib ex_env ex_provider [ex_alice, ex_bob]
           \<lparr>session_user_id = Some 2, session_email = Some ''admin@example.com''\<rparr> rnd_count)
       = Inr \<lparr>articles = [ex_a4, ex_a1], page_user = Some ex_bob, personalized = True,
              topics = [''technology'', ''science'', ''sports'']\<rparr>"
proof -
  let ?sess = "\<lparr>session_user_id = Some 2, session_email = Some ''admin@example.com''\<rparr>"
  have h1: "session_user_id ?sess = Some 2" by simp
  have h2: "session_get_user [ex_alice, ex_bob] 2 = Some ex_bob"
    by (simp add: session_get_user_def ex_alice_def ex_bob_def)
  have h3: "interests ex_bob \<noteq> []" and h3': "interests ex_bob = '',, ''"
    by (simp_all add: ex_bob_def)
  have h4: "filter (\<lambda>t. t \<noteq> []) (map (str_strip ex_lib) (split_comma (interests ex_bob))) = []"
    by (simp add: ex_auth_defs)
  have e: "map_sum id fst
        (personalized_feed ex_env ex_provider (Some ex_bob)
           [''technology'', ''science'', ''sports''] rnd_count)
       = Inr \<lparr>articles = [ex_a4, ex_a1], page_user = Some ex_bob, personalized = True,
              topics = [''technology'', ''science'', ''sports'']\<rparr>"
    by code_simp
  from home_blank_interests_defaults [OF h1 h2 h3 h4, of ex_env ex_provider rnd_count]
  have "home ex_lib ex_env ex_provider [ex_alice, ex_bob] ?sess rnd_count
      = personalized_feed ex_env ex_provider (Some ex_bob)
          [''technology'', ''science'', ''sports''] rnd_count"
    by blast
  with e h1 h2 h3' h4 show ?thesis by simp
qed

end
